theory Spec2Isabelle
  imports Main "HOL-Library.Multiset"
begin

section \<open>The asset graph request: data\<close>

text \<open>
  The development embeds \<^verbatim>\<open>packages/core/core/src/requests/AssetGraphRequest.js\<close>.
  JavaScript values that the builder only passes along (module specifiers, entries,
  dependencies, asset groups) have the type variable \<open>'v\<close>; the asset graph is a
  value of type \<open>'g\<close>, what requests reject with has type \<open>'e\<close>, and \<open>'a\<close> stands
  for the fields of an asset that the builder never reads.
\<close>

type_synonym NodeId = string
type_synonym RequestId = string

text \<open>
  \<^verbatim>\<open>AssetGraphNode\<close>: the fields the builder reads. \<open>complete\<close> and \<open>hasDeferred\<close> are
  optional booleans, \<open>correspondingRequest\<close> an optional request id (\<open>None\<close> is
  \<^verbatim>\<open>null\<close> or \<^verbatim>\<open>undefined\<close>).
\<close>

record 'v AssetGraphNode =
  node_id :: NodeId
  node_type :: string
  node_value :: 'v
  complete :: "bool option"
  correspondingRequest :: "RequestId option"
  hasDeferred :: "bool option"

record 'a Asset =
  asset_id :: string
  asset_rest :: 'a

text \<open>A request descriptor, as the four request factories build it.\<close>

record 'v Request =
  request_id :: RequestId
  request_input :: 'v

record 'v EntryResult =
  entries :: "'v list"

text \<open>What \<^verbatim>\<open>throw\<close> raises: a fresh \<^verbatim>\<open>new Error(message)\<close>, or a recorded rejection.\<close>

datatype 'e thrown = Error string | Rejection 'e

text \<open>
  The collaborators of the builder, which live outside this file, are parameters: the
  request tracker's \<^verbatim>\<open>api\<close> (\<open>runRequest\<close> at its four result types; \<open>Inl\<close> is a
  rejected promise; \<^verbatim>\<open>api.storeResult\<close> is recorded in the output of \<open>build\<close>), the
  methods of \<^verbatim>\<open>AssetGraph\<close>, the four request factories, \<^verbatim>\<open>md5FromObject\<close> and
  \<^verbatim>\<open>PARCEL_VERSION\<close>. The graph is passed and returned explicitly. As the spec has it
  (sections 3 and 4.3), only \<open>setRootConnections\<close> and the four resolution operations
  change the graph; \<open>getRootNode\<close>, \<open>getNodesConnectedFrom\<close> and the gate
  \<open>shouldVisitChild\<close> read it. A node is the value of the fields the builder reads;
  the graph's methods receive the graph as it is when they are called.
\<close>

record ('g, 'v, 'a, 'e) env =
  canSkipSubrequest :: "RequestId \<Rightarrow> bool"
  runRequest_entry :: "'v Request \<Rightarrow> 'e + 'v EntryResult"
  runRequest_target :: "'v Request \<Rightarrow> 'e + 'v list"
  runRequest_path :: "'v Request \<Rightarrow> 'e + 'v option"
  runRequest_asset :: "'v Request \<Rightarrow> 'e + 'a Asset list option"
  newAssetGraph :: 'g
  setRootConnections :: "'g \<Rightarrow> string list option \<Rightarrow> 'v list option \<Rightarrow> 'g"
  getRootNode :: "'g \<Rightarrow> 'v AssetGraphNode option"
  getNodesConnectedFrom :: "'g \<Rightarrow> 'v AssetGraphNode \<Rightarrow> 'v AssetGraphNode list"
  shouldVisitChild :: "'g \<Rightarrow> 'v AssetGraphNode \<Rightarrow> 'v AssetGraphNode \<Rightarrow> bool"
  resolveEntry :: "'g \<Rightarrow> 'v \<Rightarrow> 'v list \<Rightarrow> RequestId \<Rightarrow> 'g"
  resolveTargets :: "'g \<Rightarrow> 'v \<Rightarrow> 'v list \<Rightarrow> RequestId \<Rightarrow> 'g"
  resolveDependency :: "'g \<Rightarrow> 'v \<Rightarrow> 'v option \<Rightarrow> RequestId \<Rightarrow> 'g"
  resolveAssetGroup :: "'g \<Rightarrow> 'v \<Rightarrow> 'a Asset list \<Rightarrow> RequestId \<Rightarrow> 'g"
  createEntryRequest :: "'v \<Rightarrow> 'v Request"
  createTargetRequest :: "'v \<Rightarrow> 'v Request"
  createPathRequest :: "'v \<Rightarrow> string \<Rightarrow> 'v Request"
  createAssetRequest :: "'v \<Rightarrow> string \<Rightarrow> nat \<Rightarrow> 'v Request"
  md5FromObject :: "string \<Rightarrow> string \<Rightarrow> string list option \<Rightarrow> string"
  PARCEL_VERSION :: string


text \<open>The value \<^verbatim>\<open>build\<close> returns and \<^verbatim>\<open>api.storeResult\<close> receives.\<close>

record ('g, 'v, 'a) PassResult =
  res_assetGraph :: 'g
  res_changedAssets :: "string \<rightharpoonup> 'a Asset"
  res_assetRequests :: "'v list"

text \<open>
  A dispatched request: the promise that one of the four \<^verbatim>\<open>run...Request\<close> methods
  returned, together with the node whose children are visited once the queued unit
  settles. \<open>Pending\<close>: the method is suspended at its \<^verbatim>\<open>await\<close>; \<open>Fulfilled\<close> and
  \<open>Rejected\<close>: the method has run to its end, and the queued unit has not yet settled.
\<close>

datatype RequestKind = EntryRequest | TargetRequest | PathRequest | AssetRequest

datatype 'e PromiseState = Pending | Fulfilled | Rejected 'e

record ('v, 'e) Task =
  task_node :: "'v AssetGraphNode"
  task_kind :: RequestKind
  task_input :: 'v
  task_request :: "'v Request"
  task_state :: "'e PromiseState"

text \<open>
  The fields of \<^verbatim>\<open>AssetGraphBuilder\<close>, and the two locals \<open>errors\<close> and \<open>visited\<close>
  that the closures of \<^verbatim>\<open>build\<close> share. \<open>queue\<close> holds the units added to the
  \<^verbatim>\<open>PromiseQueue\<close> that have not settled.
\<close>

record ('g, 'v, 'a, 'e) Builder =
  assetGraph :: 'g
  assetRequests :: "'v list"
  queue :: "('v, 'e) Task list"
  changedAssets :: "string \<rightharpoonup> 'a Asset"
  optionsRef :: nat
  name :: string
  cacheKey :: string
  errors :: "'e list"
  visited :: "NodeId set"

section \<open>The builder\<close>


definition typesWithRequests :: "string set" where
  "typesWithRequests = {''entry_specifier'', ''entry_file'', ''dependency'', ''asset_group''}"

definition shouldSkipRequest :: "('g, 'v, 'a, 'e) env \<Rightarrow> 'v AssetGraphNode \<Rightarrow> bool" where
  "shouldSkipRequest env node \<longleftrightarrow>
     complete node = Some True \<or>
     node_type node \<notin> typesWithRequests \<or>
     (correspondingRequest node \<noteq> None \<and>
      canSkipSubrequest env (the (correspondingRequest node)))"

text \<open>
  The four \<^verbatim>\<open>run...Request\<close> methods up to their \<^verbatim>\<open>await\<close>: each builds its request
  and hands it to \<^verbatim>\<open>api.runRequest\<close>; \<^verbatim>\<open>runAssetRequest\<close> pushes its input onto
  \<open>assetRequests\<close> first.
\<close>

definition new_task ::
  "'v AssetGraphNode \<Rightarrow> RequestKind \<Rightarrow> 'v \<Rightarrow> 'v Request \<Rightarrow> ('v, 'e) Task" where
  "new_task node kind input request =
     \<lparr>task_node = node, task_kind = kind, task_input = input, task_request = request,
      task_state = Pending\<rparr>"

definition runEntryRequest ::
  "('g, 'v, 'a, 'e) env \<Rightarrow> 'v AssetGraphNode \<Rightarrow> 'v \<Rightarrow> ('g, 'v, 'a, 'e) Builder
    \<Rightarrow> ('g, 'v, 'a, 'e) Builder \<times> ('v, 'e) Task" where
  "runEntryRequest env node input b =
     (b, new_task node EntryRequest input (createEntryRequest env input))"

definition runTargetRequest ::
  "('g, 'v, 'a, 'e) env \<Rightarrow> 'v AssetGraphNode \<Rightarrow> 'v \<Rightarrow> ('g, 'v, 'a, 'e) Builder
    \<Rightarrow> ('g, 'v, 'a, 'e) Builder \<times> ('v, 'e) Task" where
  "runTargetRequest env node input b =
     (b, new_task node TargetRequest input (createTargetRequest env input))"

definition runPathRequest ::
  "('g, 'v, 'a, 'e) env \<Rightarrow> 'v AssetGraphNode \<Rightarrow> 'v \<Rightarrow> ('g, 'v, 'a, 'e) Builder
    \<Rightarrow> ('g, 'v, 'a, 'e) Builder \<times> ('v, 'e) Task" where
  "runPathRequest env node input b =
     (b, new_task node PathRequest input (createPathRequest env input (name b)))"

definition runAssetRequest ::
  "('g, 'v, 'a, 'e) env \<Rightarrow> 'v AssetGraphNode \<Rightarrow> 'v \<Rightarrow> ('g, 'v, 'a, 'e) Builder
    \<Rightarrow> ('g, 'v, 'a, 'e) Builder \<times> ('v, 'e) Task" where
  "runAssetRequest env node input b =
     (b\<lparr>assetRequests := assetRequests b @ [input]\<rparr>,
      new_task node AssetRequest input (createAssetRequest env input (name b) (optionsRef b)))"

text \<open>
  \<^verbatim>\<open>queueCorrespondingRequest\<close>: the switch over the node's type, then \<^verbatim>\<open>queue.add\<close>.
  The default case throws.
\<close>

definition queue_add ::
  "('g, 'v, 'a, 'e) Builder \<times> ('v, 'e) Task \<Rightarrow> ('g, 'v, 'a, 'e) Builder" where
  "queue_add p = (fst p)\<lparr>queue := queue (fst p) @ [snd p]\<rparr>"

definition queueCorrespondingRequest ::
  "('g, 'v, 'a, 'e) env \<Rightarrow> 'v AssetGraphNode \<Rightarrow> ('g, 'v, 'a, 'e) Builder
    \<Rightarrow> 'e thrown + ('g, 'v, 'a, 'e) Builder" where
  "queueCorrespondingRequest env node b =
     (if node_type node = ''entry_specifier'' then
        Inr (queue_add (runEntryRequest env node (node_value node) b))
      else if node_type node = ''entry_file'' then
        Inr (queue_add (runTargetRequest env node (node_value node) b))
      else if node_type node = ''dependency'' then
        Inr (queue_add (runPathRequest env node (node_value node) b))
      else if node_type node = ''asset_group'' then
        Inr (queue_add (runAssetRequest env node (node_value node) b))
      else
        Inl (Error (''Can not queue corresponding request of node with type '' @ node_type node)))"

text \<open>
  \<^verbatim>\<open>visit\<close> and \<^verbatim>\<open>visitChildren\<close>, the two closures of \<^verbatim>\<open>build\<close>. The recursion of the
  source is bounded by nothing but the graph, so the model takes fuel: \<open>None\<close> is a
  recursion deeper than the fuel. A result \<open>(Some err, b)\<close> is an exception \<open>err\<close> thrown
  in state \<open>b\<close>. \<open>visitChildren\<close> receives the array that \<^verbatim>\<open>getNodesConnectedFrom\<close>
  returned and walks it.
\<close>

fun visit ::
  "nat \<Rightarrow> ('g, 'v, 'a, 'e) env \<Rightarrow> 'v AssetGraphNode \<Rightarrow> ('g, 'v, 'a, 'e) Builder
    \<Rightarrow> ('e thrown option \<times> ('g, 'v, 'a, 'e) Builder) option"
and visitChildren_loop ::
  "nat \<Rightarrow> ('g, 'v, 'a, 'e) env \<Rightarrow> 'v AssetGraphNode \<Rightarrow> 'v AssetGraphNode list
    \<Rightarrow> ('g, 'v, 'a, 'e) Builder \<Rightarrow> ('e thrown option \<times> ('g, 'v, 'a, 'e) Builder) option"
where
  "visit 0 env node b = None"
| "visit (Suc k) env node b =
     (if errors b \<noteq> [] then Some (None, b)
      else if shouldSkipRequest env node then
        visitChildren_loop k env node (getNodesConnectedFrom env (assetGraph b) node) b
      else
        (case queueCorrespondingRequest env node b of
           Inl err \<Rightarrow> Some (Some err, b)
         | Inr b' \<Rightarrow> Some (None, b')))"
| "visitChildren_loop k env node [] b = Some (None, b)"
| "visitChildren_loop k env node (child # rest) b =
     (if (node_id child \<notin> visited b \<or> hasDeferred child = Some True) \<and>
         shouldVisitChild env (assetGraph b) node child
      then
        (case visit k env child (b\<lparr>visited := insert (node_id child) (visited b)\<rparr>) of
           None \<Rightarrow> None
         | Some (Some err, b') \<Rightarrow> Some (Some err, b')
         | Some (None, b') \<Rightarrow> visitChildren_loop k env node rest b')
      else visitChildren_loop k env node rest b)"

definition visitChildren ::
  "nat \<Rightarrow> ('g, 'v, 'a, 'e) env \<Rightarrow> 'v AssetGraphNode \<Rightarrow> ('g, 'v, 'a, 'e) Builder
    \<Rightarrow> ('e thrown option \<times> ('g, 'v, 'a, 'e) Builder) option" where
  "visitChildren k env node b =
     visitChildren_loop k env node (getNodesConnectedFrom env (assetGraph b) node) b"

text \<open>
  The four \<^verbatim>\<open>run...Request\<close> methods from their \<^verbatim>\<open>await\<close> on: a rejected request
  rejects the method's promise; a result is folded into the graph by the matching
  resolution operation. The result is the state the method's promise settles in, and the
  builder after the method has run.
\<close>

definition runEntryRequest_resume ::
  "('g, 'v, 'a, 'e) env \<Rightarrow> 'v \<Rightarrow> 'v Request \<Rightarrow> ('g, 'v, 'a, 'e) Builder
    \<Rightarrow> 'e PromiseState \<times> ('g, 'v, 'a, 'e) Builder" where
  "runEntryRequest_resume env input request b =
     (case runRequest_entry env request of
        Inl e \<Rightarrow> (Rejected e, b)
      | Inr result \<Rightarrow>
          (Fulfilled,
           b\<lparr>assetGraph :=
               resolveEntry env (assetGraph b) (request_input request) (entries result)
                 (request_id request)\<rparr>))"

definition runTargetRequest_resume ::
  "('g, 'v, 'a, 'e) env \<Rightarrow> 'v \<Rightarrow> 'v Request \<Rightarrow> ('g, 'v, 'a, 'e) Builder
    \<Rightarrow> 'e PromiseState \<times> ('g, 'v, 'a, 'e) Builder" where
  "runTargetRequest_resume env input request b =
     (case runRequest_target env request of
        Inl e \<Rightarrow> (Rejected e, b)
      | Inr targets \<Rightarrow>
          (Fulfilled,
           b\<lparr>assetGraph :=
               resolveTargets env (assetGraph b) (request_input request) targets
                 (request_id request)\<rparr>))"

definition runPathRequest_resume ::
  "('g, 'v, 'a, 'e) env \<Rightarrow> 'v \<Rightarrow> 'v Request \<Rightarrow> ('g, 'v, 'a, 'e) Builder
    \<Rightarrow> 'e PromiseState \<times> ('g, 'v, 'a, 'e) Builder" where
  "runPathRequest_resume env input request b =
     (case runRequest_path env request of
        Inl e \<Rightarrow> (Rejected e, b)
      | Inr result \<Rightarrow>
          (Fulfilled,
           b\<lparr>assetGraph :=
               resolveDependency env (assetGraph b) input result (request_id request)\<rparr>))"

text \<open>The loop \<^verbatim>\<open>for (let asset of assets) this.changedAssets.set(asset.id, asset)\<close>.\<close>

fun set_changedAssets ::
  "(string \<rightharpoonup> 'a Asset) \<Rightarrow> 'a Asset list \<Rightarrow> (string \<rightharpoonup> 'a Asset)" where
  "set_changedAssets m [] = m"
| "set_changedAssets m (asset # assets) = set_changedAssets (m(asset_id asset \<mapsto> asset)) assets"

definition runAssetRequest_resume ::
  "('g, 'v, 'a, 'e) env \<Rightarrow> 'v \<Rightarrow> 'v Request \<Rightarrow> ('g, 'v, 'a, 'e) Builder
    \<Rightarrow> 'e PromiseState \<times> ('g, 'v, 'a, 'e) Builder" where
  "runAssetRequest_resume env input request b =
     (case runRequest_asset env request of
        Inl e \<Rightarrow> (Rejected e, b)
      | Inr None \<Rightarrow> (Fulfilled, b)
      | Inr (Some assets) \<Rightarrow>
          (Fulfilled,
           b\<lparr>changedAssets := set_changedAssets (changedAssets b) assets,
             assetGraph :=
               resolveAssetGroup env (assetGraph b) input assets (request_id request)\<rparr>))"

definition resume ::
  "('g, 'v, 'a, 'e) env \<Rightarrow> ('v, 'e) Task \<Rightarrow> ('g, 'v, 'a, 'e) Builder
    \<Rightarrow> 'e PromiseState \<times> ('g, 'v, 'a, 'e) Builder" where
  "resume env t b =
     (case task_kind t of
        EntryRequest \<Rightarrow> runEntryRequest_resume env (task_input t) (task_request t) b
      | TargetRequest \<Rightarrow> runTargetRequest_resume env (task_input t) (task_request t) b
      | PathRequest \<Rightarrow> runPathRequest_resume env (task_input t) (task_request t) b
      | AssetRequest \<Rightarrow> runAssetRequest_resume env (task_input t) (task_request t) b)"

section \<open>The promise queue\<close>

text \<open>
  \<^verbatim>\<open>PromiseQueue\<close> of \<^verbatim>\<open>@parcel/utils\<close> is not part of this file; its \<open>add\<close> and \<open>run\<close>
  are modelled from the spec (section 4.2): the task queue runs every submitted unit, also
  the units submitted while it drains, in any order, cancels none, and \<open>drain\<close> returns
  once all have settled. The field \<open>queue\<close> of the builder holds the units that have
  not settled; \<open>queue_add\<close> above is \<^verbatim>\<open>queue.add\<close>.
\<close>

definition remove_nth :: "nat \<Rightarrow> 'x list \<Rightarrow> 'x list" where
  "remove_nth j xs = take j xs @ drop (Suc j) xs"

text \<open>
  Modelled from the spec: one step of the \<open>j\<close>-th unit of the queue, which is missing from
  the sources with \<^verbatim>\<open>PromiseQueue\<close>. A unit makes two steps:
  \<^item> its request settles, and the \<^verbatim>\<open>run...Request\<close> method runs from its
    \<^verbatim>\<open>await\<close> to its end (\<open>resume\<close>);
  \<^item> the unit itself settles: the handler \<^verbatim>\<open>error => errors.push(error)\<close> of
    \<^verbatim>\<open>queueCorrespondingRequest\<close> runs when the method's promise was rejected, the unit
    leaves the queue, and the continuation \<^verbatim>\<open>() => visitChildren(node)\<close> of \<^verbatim>\<open>visit\<close>
    runs. An exception thrown by the continuation rejects a promise that nobody awaits,
    and the pass goes on.
\<close>

definition settle ::
  "nat \<Rightarrow> ('g, 'v, 'a, 'e) env \<Rightarrow> nat \<Rightarrow> ('g, 'v, 'a, 'e) Builder
    \<Rightarrow> ('g, 'v, 'a, 'e) Builder option" where
  "settle k env j b =
     (let t = queue b ! j in
      case task_state t of
        Pending \<Rightarrow>
          (case resume env t b of
             (st, b') \<Rightarrow> Some (b'\<lparr>queue := (queue b')[j := t\<lparr>task_state := st\<rparr>]\<rparr>))
      | Fulfilled \<Rightarrow>
          map_option snd
            (visitChildren k env (task_node t) (b\<lparr>queue := remove_nth j (queue b)\<rparr>))
      | Rejected e \<Rightarrow>
          map_option snd
            (visitChildren k env (task_node t)
               (b\<lparr>queue := remove_nth j (queue b), errors := errors b @ [e]\<rparr>)))"

text \<open>
  Modelled from the spec: \<^verbatim>\<open>queue.run()\<close>, awaited by \<^verbatim>\<open>build\<close> and missing from the
  sources with \<^verbatim>\<open>PromiseQueue\<close>. It makes steps until no unit is left. The order of
  the steps is a parameter: \<open>sched i\<close> chooses the unit that makes the \<open>i\<close>-th step.
  \<open>None\<close> is a run that needs more steps, or a deeper walk, than the fuel allows.
\<close>

fun queue_run ::
  "nat \<Rightarrow> nat \<Rightarrow> (nat \<Rightarrow> nat) \<Rightarrow> ('g, 'v, 'a, 'e) env \<Rightarrow> ('g, 'v, 'a, 'e) Builder
    \<Rightarrow> ('g, 'v, 'a, 'e) Builder option" where
  "queue_run 0 i sched env b = (if queue b = [] then Some b else None)"
| "queue_run (Suc k) i sched env b =
     (if queue b = [] then Some b
      else
        (case settle k env (sched i mod length (queue b)) b of
           None \<Rightarrow> None
         | Some b' \<Rightarrow> queue_run k (Suc i) sched env b'))"

section \<open>The build pass\<close>

text \<open>
  What a pass does to the outside: the calls of \<^verbatim>\<open>api.storeResult\<close> (value and cache
  key), and the value \<^verbatim>\<open>build\<close> returns (\<open>Inr\<close>) or the exception it throws (\<open>Inl\<close>).
  \<open>build\<close> is \<open>None\<close> when the fuel does not suffice for the walk or for the queue.
  \<^verbatim>\<open>dumpToGraphViz\<close> only reads the graph and is left out.
\<close>

record ('g, 'v, 'a, 'e) BuildOutput =
  stored :: "(('g, 'v, 'a) PassResult \<times> string) list"
  outcome :: "'e thrown + ('g, 'v, 'a) PassResult"

definition finish_build ::
  "('g, 'v, 'a, 'e) Builder \<Rightarrow> ('g, 'v, 'a, 'e) BuildOutput" where
  "finish_build b =
     \<lparr>stored =
        [(\<lparr>res_assetGraph = assetGraph b, res_changedAssets = Map.empty,
           res_assetRequests = []\<rparr>,
          cacheKey b)],
      outcome =
        (if errors b \<noteq> [] then Inl (Rejection (errors b ! 0))
         else
           Inr \<lparr>res_assetGraph = assetGraph b, res_changedAssets = changedAssets b,
                res_assetRequests = assetRequests b\<rparr>)\<rparr>"

definition build ::
  "nat \<Rightarrow> (nat \<Rightarrow> nat) \<Rightarrow> ('g, 'v, 'a, 'e) env \<Rightarrow> ('g, 'v, 'a, 'e) Builder
    \<Rightarrow> ('g, 'v, 'a, 'e) BuildOutput option" where
  "build k sched env b =
     (case getRootNode env (assetGraph b) of
        None \<Rightarrow>
          Some \<lparr>stored = [], outcome = Inl (Error ''A root node is required to traverse'')\<rparr>
      | Some root \<Rightarrow>
          (case visit k env root (b\<lparr>errors := [], visited := {node_id root}\<rparr>) of
             None \<Rightarrow> None
           | Some (Some err, b1) \<Rightarrow> Some \<lparr>stored = [], outcome = Inl err\<rparr>
           | Some (None, b1) \<Rightarrow>
               (case queue_run k 0 sched env b1 of
                  None \<Rightarrow> None
                | Some b2 \<Rightarrow> Some (finish_build b2))))"


section \<open>An example graph\<close>

text \<open>
  A small environment for concrete runs. The graph is the list of the ids of the requests
  resolved so far (and the marker \<open>''with bad''\<close>, which gives the root two more
  children, \<open>bad\<close> and \<open>worse\<close>, whose transforms fail). The nodes are \<open>root \<rightarrow> d\<close>, \<open>d \<rightarrow> g\<close> once the path
  request of \<open>d\<close> is resolved, \<open>g \<rightarrow> x\<close> once the asset request of \<open>g\<close> is
  resolved, and \<open>x \<rightarrow> d\<close>, which closes a cycle; \<open>x\<close> has its \<open>hasDeferred\<close> flag set.
  A node whose request is resolved is complete.
\<close>

definition ex_node :: "NodeId \<Rightarrow> string \<Rightarrow> string AssetGraphNode" where
  "ex_node i ty =
     \<lparr>node_id = i, node_type = ty, node_value = i, complete = None,
      correspondingRequest = None,
      hasDeferred = (if i = ''x'' then Some True else None)\<rparr>"

text \<open>A node as the graph \<open>g\<close> holds it: complete once its request is resolved.\<close>

definition ex_child :: "string list \<Rightarrow> NodeId \<Rightarrow> string \<Rightarrow> string AssetGraphNode" where
  "ex_child g i ty =
     (ex_node i ty)
       \<lparr>complete := (if ''path:'' @ i \<in> set g \<or> ''asset:'' @ i \<in> set g then Some True else None)\<rparr>"

definition ex_children ::
  "string list \<Rightarrow> string AssetGraphNode \<Rightarrow> string AssetGraphNode list" where
  "ex_children g n =
     (if node_id n = ''root'' then
        ex_child g ''d'' ''dependency'' #
        (if ''with bad'' \<in> set g
         then [ex_child g ''bad'' ''asset_group'', ex_child g ''worse'' ''asset_group''] else [])
      else if node_id n = ''d'' \<and> ''path:d'' \<in> set g then [ex_child g ''g'' ''asset_group'']
      else if node_id n = ''g'' \<and> ''asset:g'' \<in> set g then [ex_child g ''x'' ''asset'']
      else if node_id n = ''x'' then [ex_child g ''d'' ''dependency'']
      else [])"

definition ex_env :: "(string list, string, unit, string) env" where
  "ex_env =
     \<lparr>canSkipSubrequest = (\<lambda>r. False),
      runRequest_entry = (\<lambda>q. Inr \<lparr>entries = []\<rparr>),
      runRequest_target = (\<lambda>q. Inr []),
      runRequest_path = (\<lambda>q. Inr (Some ''g'')),
      runRequest_asset =
        (\<lambda>q. if request_input q = ''bad'' then Inl ''transform failed''
             else if request_input q = ''worse'' then Inl ''worse failed''
             else Inr (Some [\<lparr>asset_id = ''x'', asset_rest = ()\<rparr>])),
      newAssetGraph = [],
      setRootConnections = (\<lambda>g es gs. g),
      getRootNode = (\<lambda>g. Some (ex_node ''root'' ''root'')),
      getNodesConnectedFrom = ex_children,
      shouldVisitChild = (\<lambda>g n c. True),
      resolveEntry = (\<lambda>g i r q. g @ [q]),
      resolveTargets = (\<lambda>g i r q. g @ [q]),
      resolveDependency = (\<lambda>g i r q. g @ [q]),
      resolveAssetGroup = (\<lambda>g i r q. g @ [q]),
      createEntryRequest = (\<lambda>v. \<lparr>request_id = ''entry:'' @ v, request_input = v\<rparr>),
      createTargetRequest = (\<lambda>v. \<lparr>request_id = ''target:'' @ v, request_input = v\<rparr>),
      createPathRequest = (\<lambda>v nm. \<lparr>request_id = ''path:'' @ v, request_input = v\<rparr>),
      createAssetRequest = (\<lambda>v nm opts. \<lparr>request_id = ''asset:'' @ v, request_input = v\<rparr>),
      md5FromObject = (\<lambda>v nm es. v @ nm),
      PARCEL_VERSION = ''2''\<rparr>"

definition ex_builder :: "string list \<Rightarrow> (string list, string, unit, string) Builder" where
  "ex_builder g =
     \<lparr>assetGraph = g, assetRequests = [], queue = [], changedAssets = Map.empty,
      optionsRef = 0, name = ''app'', cacheKey = ''key'', errors = [], visited = {}\<rparr>"

section \<open>Auxiliary notions\<close>

text \<open>
  \<open>dispatched node b b'\<close>: between the states \<open>b\<close> and \<open>b'\<close> a unit for \<open>node\<close> was
  added to the queue. \<open>extends env b b'\<close>: what a synchronous walk may change: it adds
  ids to \<open>visited\<close>, pending units for nodes that are not skipped to the queue, and
  descriptors to \<open>assetRequests\<close>.
\<close>

definition dispatched ::
  "'v AssetGraphNode \<Rightarrow> ('g, 'v, 'a, 'e) Builder \<Rightarrow> ('g, 'v, 'a, 'e) Builder \<Rightarrow> bool" where
  "dispatched node b b' \<longleftrightarrow>
     (\<exists>t \<in> set (drop (length (queue b)) (queue b')). task_node t = node)"

definition extends ::
  "('g, 'v, 'a, 'e) env \<Rightarrow> ('g, 'v, 'a, 'e) Builder \<Rightarrow> ('g, 'v, 'a, 'e) Builder \<Rightarrow> bool" where
  "extends env b b' \<longleftrightarrow>
     assetGraph b' = assetGraph b \<and> changedAssets b' = changedAssets b \<and>
     errors b' = errors b \<and> optionsRef b' = optionsRef b \<and> name b' = name b \<and>
     cacheKey b' = cacheKey b \<and> visited b \<subseteq> visited b' \<and>
     (\<exists>new. queue b' = queue b @ new \<and>
        (\<forall>t \<in> set new. task_state t = Pending \<and> \<not> shouldSkipRequest env (task_node t))) \<and>
     (\<exists>more. assetRequests b' = assetRequests b @ more)"

text \<open>
  \<open>rejects env t e\<close>: the request of the unit \<open>t\<close> is rejected with \<open>e\<close>.
  \<open>units_left q\<close> counts the steps the units of \<open>q\<close> still make when no unit is added:
  two for a pending request, one for a settled one.
\<close>

definition rejects :: "('g, 'v, 'a, 'e) env \<Rightarrow> ('v, 'e) Task \<Rightarrow> 'e \<Rightarrow> bool" where
  "rejects env t e \<longleftrightarrow>
     (case task_kind t of
        EntryRequest \<Rightarrow> runRequest_entry env (task_request t) = Inl e
      | TargetRequest \<Rightarrow> runRequest_target env (task_request t) = Inl e
      | PathRequest \<Rightarrow> runRequest_path env (task_request t) = Inl e
      | AssetRequest \<Rightarrow> runRequest_asset env (task_request t) = Inl e)"

fun units_left :: "('v, 'e) Task list \<Rightarrow> nat" where
  "units_left [] = 0"
| "units_left (t # ts) = (if task_state t = Pending then 2 else 1) + units_left ts"

text \<open>The unit of the example's node \<open>bad\<close>, whose request is rejected.\<close>

definition ex_bad_task :: "(string, string) Task" where
  "ex_bad_task =
     new_task (ex_node ''bad'' ''asset_group'') AssetRequest ''bad''
       \<lparr>request_id = ''asset:bad'', request_input = ''bad''\<rparr>"





















section \<open>Properties of the walk\<close>

lemma extends_refl: "extends env b b"
  by (simp add: extends_def)

lemma extends_trans: "extends env b b1 \<Longrightarrow> extends env b1 b2 \<Longrightarrow> extends env b b2"
  unfolding extends_def by (elim conjE exE) (auto simp: subset_iff)

lemma extends_visited: "extends env b (b\<lparr>visited := insert i (visited b)\<rparr>)"
  by (auto simp: extends_def)

lemma not_skip_type:
  "\<not> shouldSkipRequest env node \<Longrightarrow> node_type node \<in> typesWithRequests"
  by (simp add: shouldSkipRequest_def)

lemma queue_not_skip:
  "\<not> shouldSkipRequest env node \<Longrightarrow> \<exists>b'. queueCorrespondingRequest env node b = Inr b'"
  by (auto simp: shouldSkipRequest_def typesWithRequests_def queueCorrespondingRequest_def)

lemma queue_extends:
  "\<not> shouldSkipRequest env node \<Longrightarrow> queueCorrespondingRequest env node b = Inr b'
    \<Longrightarrow> extends env b b'"
  by (auto simp: queueCorrespondingRequest_def queue_add_def runEntryRequest_def
      runTargetRequest_def runPathRequest_def runAssetRequest_def new_task_def extends_def
      split: if_splits)

lemma queue_task:
  "queueCorrespondingRequest env node b = Inr b'
    \<Longrightarrow> \<exists>t. queue b' = queue b @ [t] \<and> task_node t = node \<and> task_state t = Pending"
  by (auto simp: queueCorrespondingRequest_def queue_add_def runEntryRequest_def
      runTargetRequest_def runPathRequest_def runAssetRequest_def new_task_def
      split: if_splits)

lemma visit_no_throw:
  "\<forall>r. visit k env node b = Some r \<longrightarrow> fst r = None"
  "\<forall>r. visitChildren_loop k env node cs b = Some r \<longrightarrow> fst r = None"
proof (induction k env node b and k env node cs b rule: visit_visitChildren_loop.induct)
  case (2 k env node b)
  then show ?case
    using queue_not_skip [of env node b] by (auto split: sum.splits)
next
  case (4 k env node child rest b)
  then show ?case
    by (auto split: option.splits prod.splits if_splits)
qed simp_all

lemma visit_extends:
  "\<forall>r. visit k env node b = Some r \<longrightarrow> extends env b (snd r)"
  "\<forall>r. visitChildren_loop k env node cs b = Some r \<longrightarrow> extends env b (snd r)"
proof (induction k env node b and k env node cs b rule: visit_visitChildren_loop.induct)
  case (1 env node b)
  show ?case by simp
next
  case (2 k env node b)
  show ?case
  proof (cases "errors b \<noteq> []")
    case True
    then show ?thesis by (simp add: extends_refl)
  next
    case False
    note noerr = this
    show ?thesis
    proof (cases "shouldSkipRequest env node")
      case True
      with noerr "2.IH" show ?thesis by simp
    next
      case False
      with noerr queue_not_skip [OF False, of b] queue_extends [OF False, of b]
      show ?thesis by auto
    qed
  qed
next
  case (3 k env node b)
  show ?case by (simp add: extends_refl)
next
  case (4 k env node child rest b)
  let ?c = "(node_id child \<notin> visited b \<or> hasDeferred child = Some True) \<and>
         shouldVisitChild env (assetGraph b) node child"
  let ?b1 = "b\<lparr>visited := insert (node_id child) (visited b)\<rparr>"
  show ?case
  proof (cases ?c)
    case False
    with "4.IH"(3) show ?thesis by auto
  next
    case True
    show ?thesis
    proof (intro allI impI)
      fix r assume r: "visitChildren_loop k env node (child # rest) b = Some r"
      from r True obtain r1 where r1: "visit k env child ?b1 = Some r1"
        by (auto split: option.splits)
      from visit_no_throw(1) r1 have nt: "fst r1 = None" by blast
      then obtain b2 where b2: "r1 = (None, b2)" by (cases r1) auto
      from r True r1 b2 have rest: "visitChildren_loop k env node rest b2 = Some r"
        by simp
      from "4.IH"(1) True r1 b2 have e1: "extends env ?b1 b2" by auto
      from "4.IH"(2) [OF True r1 [unfolded b2]] rest have e2: "extends env b2 (snd r)"
        by auto
      from extends_trans [OF extends_visited extends_trans [OF e1 e2]]
      show "extends env b (snd r)" .
    qed
  qed
qed

lemmas ex_defs = ex_env_def ex_builder_def ex_node_def ex_child_def ex_children_def
  shouldSkipRequest_def typesWithRequests_def queueCorrespondingRequest_def queue_add_def
  runEntryRequest_def runTargetRequest_def runPathRequest_def runAssetRequest_def new_task_def

lemma visit_dispatch:
  assumes "errors b = []" "\<not> shouldSkipRequest env node"
  shows "\<exists>b' t. visit (Suc k) env node b = Some (None, b') \<and> queue b' = queue b @ [t] \<and>
           task_node t = node \<and> task_state t = Pending"
proof -
  from queue_not_skip [OF assms(2)] obtain b' where
    b': "queueCorrespondingRequest env node b = Inr b'" by blast
  from queue_task [OF b'] obtain t where
    "queue b' = queue b @ [t]" "task_node t = node" "task_state t = Pending" by blast
  with assms b' show ?thesis by simp
qed

lemma visit_after_error: "errors b \<noteq> [] \<Longrightarrow> visit (Suc k) env node b = Some (None, b)"
  by simp

section \<open>The skip predicate and dispatch\<close>

text \<open>
  Claim C1, amended. The skip predicate \<open>shouldSkipRequest\<close> holds of a node if and only if
  its \<open>complete\<close> flag is true, or its type is none of the four requestable types, or it
  has a \<open>correspondingRequest\<close> that \<open>api.canSkipSubrequest\<close> accepts. A visit of the node
  dispatches a request for it exactly when no error has been recorded and the predicate is
  false; in that case the visit returns.
\<close>

theorem skip_predicate_and_dispatch:
  "(shouldSkipRequest env node \<longleftrightarrow>
      complete node = Some True \<or>
      node_type node \<notin> {''entry_specifier'', ''entry_file'', ''dependency'', ''asset_group''} \<or>
      (\<exists>r. correspondingRequest node = Some r \<and> canSkipSubrequest env r)) \<and>
   (\<forall>r. visit (Suc k) env node b = Some r \<longrightarrow>
      (dispatched node b (snd r) \<longleftrightarrow> errors b = [] \<and> \<not> shouldSkipRequest env node)) \<and>
   (errors b = [] \<and> \<not> shouldSkipRequest env node \<longrightarrow> visit (Suc k) env node b \<noteq> None)"
proof (intro conjI impI allI)
  show "shouldSkipRequest env node \<longleftrightarrow>
      complete node = Some True \<or>
      node_type node \<notin> {''entry_specifier'', ''entry_file'', ''dependency'', ''asset_group''} \<or>
      (\<exists>r. correspondingRequest node = Some r \<and> canSkipSubrequest env r)"
    unfolding shouldSkipRequest_def typesWithRequests_def by auto
next
  fix r
  assume r: "visit (Suc k) env node b = Some r"
  show "dispatched node b (snd r) \<longleftrightarrow> errors b = [] \<and> \<not> shouldSkipRequest env node"
  proof (cases "errors b = []")
    case False
    from visit_after_error [OF False, of k env node] r have "Some r = Some (None, b)"
      by (simp only:)
    then have "snd r = b" by auto
    with False show ?thesis by (simp add: dispatched_def)
  next
    case True
    show ?thesis
    proof (cases "shouldSkipRequest env node")
      case skip: True
      from visit_extends(1) r have "extends env b (snd r)" by blast
      with skip have "\<not> dispatched node b (snd r)"
        by (auto simp: extends_def dispatched_def)
      with skip show ?thesis by simp
    next
      case False
      from visit_dispatch [OF True False, of k] r obtain t where
        "queue (snd r) = queue b @ [t]" "task_node t = node" by auto
      then have "dispatched node b (snd r)" by (simp add: dispatched_def)
      with True False show ?thesis by simp
    qed
  qed
next
  assume "errors b = [] \<and> \<not> shouldSkipRequest env node"
  then have "errors b = []" "\<not> shouldSkipRequest env node" by simp_all
  from visit_dispatch [OF this, of k] show "visit (Suc k) env node b \<noteq> None" by auto
qed

theorem skip_predicate_and_dispatch_witness:
  "\<not> shouldSkipRequest ex_env (ex_node ''d'' ''dependency'') \<and>
   visit (Suc 0) ex_env (ex_node ''d'' ''dependency'') (ex_builder []) \<noteq> None \<and>
   dispatched (ex_node ''d'' ''dependency'') (ex_builder [])
     (snd (the (visit (Suc 0) ex_env (ex_node ''d'' ''dependency'') (ex_builder []))))"
proof -
  have a: "\<not> shouldSkipRequest ex_env (ex_node ''d'' ''dependency'')"
    by (simp add: ex_defs)
  have c: "errors (ex_builder []) = ([] :: string list)"
    by (simp add: ex_builder_def)
  note th = skip_predicate_and_dispatch [of ex_env "ex_node ''d'' ''dependency''" 0 "ex_builder []"]
  from th a c have d: "visit (Suc 0) ex_env (ex_node ''d'' ''dependency'') (ex_builder []) \<noteq> None"
    by blast
  then obtain r where r: "visit (Suc 0) ex_env (ex_node ''d'' ''dependency'') (ex_builder []) = Some r"
    by blast
  from th r a c have "dispatched (ex_node ''d'' ''dependency'') (ex_builder []) (snd r)"
    by blast
  with a d r show ?thesis by simp
qed

text \<open>
  The claim as it was stated fails once an error is recorded: the predicate is false of the
  dependency node \<open>d\<close>, and its visit leaves the state as it is, with no unit queued.
\<close>

theorem dispatch_after_error_counterexample:
  "\<not> shouldSkipRequest ex_env (ex_node ''d'' ''dependency'') \<and>
   visit (Suc 0) ex_env (ex_node ''d'' ''dependency'') ((ex_builder [])\<lparr>errors := [''failed'']\<rparr>)
     = Some (None, (ex_builder [])\<lparr>errors := [''failed'']\<rparr>) \<and>
   \<not> dispatched (ex_node ''d'' ''dependency'') ((ex_builder [])\<lparr>errors := [''failed'']\<rparr>)
       ((ex_builder [])\<lparr>errors := [''failed'']\<rparr>)"
  by (simp add: ex_defs dispatched_def)

section \<open>Structural errors\<close>

text \<open>
  Claim C9. When the graph has no root node, \<open>build\<close> throws at once: whatever the fuel
  (also none), nothing is walked, queued or stored. A node whose type is none of the four
  of the dispatch switch makes \<open>queueCorrespondingRequest\<close> throw; no error is recorded
  and nothing is queued.
\<close>

theorem structural_errors_throw:
  "(getRootNode env (assetGraph b) = None \<longrightarrow>
      build k sched env b =
        Some \<lparr>stored = [], outcome = Inl (Error ''A root node is required to traverse'')\<rparr>) \<and>
   (node_type node \<notin> {''entry_specifier'', ''entry_file'', ''dependency'', ''asset_group''} \<longrightarrow>
      queueCorrespondingRequest env node b =
        Inl (Error (''Can not queue corresponding request of node with type '' @ node_type node)))"
  by (simp add: build_def queueCorrespondingRequest_def)

theorem structural_errors_throw_witness:
  "build 0 (\<lambda>i. 0) (ex_env\<lparr>getRootNode := (\<lambda>g. None)\<rparr>) (ex_builder []) =
     Some \<lparr>stored = [], outcome = Inl (Error ''A root node is required to traverse'')\<rparr> \<and>
   queueCorrespondingRequest ex_env (ex_node ''x'' ''asset'') (ex_builder []) =
     Inl (Error ''Can not queue corresponding request of node with type asset'')"
  using structural_errors_throw [of "ex_env\<lparr>getRootNode := (\<lambda>g. None)\<rparr>" "ex_builder []" 0
      "\<lambda>i. 0" "ex_node ''x'' ''asset''"]
    structural_errors_throw [of ex_env "ex_builder []" 0 "\<lambda>i. 0" "ex_node ''x'' ''asset''"]
  by (simp add: ex_env_def ex_node_def)

section \<open>The default case of the dispatch switch\<close>

lemma build_cases:
  assumes "build k sched env b = Some out" "getRootNode env (assetGraph b) = Some root"
  shows "\<exists>b1 b2. visit k env root (b\<lparr>errors := [], visited := {node_id root}\<rparr>) = Some (None, b1) \<and>
           queue_run k 0 sched env b1 = Some b2 \<and> out = finish_build b2"
proof -
  let ?b0 = "b\<lparr>errors := [], visited := {node_id root}\<rparr>"
  from assms obtain r where r: "visit k env root ?b0 = Some r"
    by (auto simp: build_def split: option.splits)
  with visit_no_throw(1) have "fst r = None" by blast
  then obtain b1 where b1: "r = (None, b1)" by (cases r) auto
  with assms r obtain b2 where "queue_run k 0 sched env b1 = Some b2" "out = finish_build b2"
    by (auto simp: build_def split: option.splits)
  with r b1 show ?thesis by blast
qed

text \<open>
  Claim C10. A node of which the skip predicate is false has one of the four requestable
  types, so \<open>queueCorrespondingRequest\<close> takes one of its four cases and returns. \<open>visit\<close>
  calls it for such nodes only: no walk throws, and \<open>build\<close> never fails with the error of
  the default case.
\<close>

theorem dispatch_default_unreachable:
  "(\<not> shouldSkipRequest env node \<longrightarrow>
      node_type node \<in> {''entry_specifier'', ''entry_file'', ''dependency'', ''asset_group''} \<and>
      (\<exists>b'. queueCorrespondingRequest env node b = Inr b')) \<and>
   (\<forall>r. visit k env node b = Some r \<longrightarrow> fst r = None) \<and>
   (\<forall>r. visitChildren k env node b = Some r \<longrightarrow> fst r = None) \<and>
   (\<forall>out ty. build k sched env b = Some out \<longrightarrow>
      outcome out \<noteq>
        Inl (Error (''Can not queue corresponding request of node with type '' @ ty)))"
proof (intro conjI impI allI)
  assume ns: "\<not> shouldSkipRequest env node"
  from not_skip_type [OF ns]
  show "node_type node \<in> {''entry_specifier'', ''entry_file'', ''dependency'', ''asset_group''}"
    by (simp add: typesWithRequests_def)
  from queue_not_skip [OF ns] show "\<exists>b'. queueCorrespondingRequest env node b = Inr b'" .
next
  fix r assume "visit k env node b = Some r"
  with visit_no_throw(1) show "fst r = None" by blast
next
  fix r assume "visitChildren k env node b = Some r"
  with visit_no_throw(2) show "fst r = None" unfolding visitChildren_def by blast
next
  fix out ty
  assume out: "build k sched env b = Some out"
  show "outcome out \<noteq>
        Inl (Error (''Can not queue corresponding request of node with type '' @ ty))"
  proof (cases "getRootNode env (assetGraph b)")
    case None
    with out show ?thesis by (auto simp: build_def)
  next
    case (Some root)
    from build_cases [OF out Some] obtain b2 where "out = finish_build b2" by blast
    then show ?thesis by (simp add: finish_build_def)
  qed
qed

theorem dispatch_default_unreachable_witness:
  "node_type (ex_node ''d'' ''dependency'') \<in>
     {''entry_specifier'', ''entry_file'', ''dependency'', ''asset_group''} \<and>
   (\<exists>b'. queueCorrespondingRequest ex_env (ex_node ''d'' ''dependency'') (ex_builder []) = Inr b') \<and>
   visit (Suc 0) ex_env (ex_node ''d'' ''dependency'') (ex_builder []) \<noteq> None \<and>
   fst (the (visit (Suc 0) ex_env (ex_node ''d'' ''dependency'') (ex_builder []))) = None \<and>
   visitChildren (Suc 0) ex_env (ex_node ''d'' ''dependency'') (ex_builder []) \<noteq> None \<and>
   fst (the (visitChildren (Suc 0) ex_env (ex_node ''d'' ''dependency'') (ex_builder []))) = None \<and>
   build 5 (\<lambda>i. 0) ex_env (ex_builder []) \<noteq> None \<and>
   outcome (the (build 5 (\<lambda>i. 0) ex_env (ex_builder []))) \<noteq>
     Inl (Error ''Can not queue corresponding request of node with type dependency'')"
proof -
  note th = dispatch_default_unreachable [of ex_env "ex_node ''d'' ''dependency''" "ex_builder []"
      "Suc 0" ]
  have a: "\<not> shouldSkipRequest ex_env (ex_node ''d'' ''dependency'')"
    by (simp add: ex_defs)
  have v: "visit (Suc 0) ex_env (ex_node ''d'' ''dependency'') (ex_builder []) \<noteq> None"
    by (simp add: ex_defs)
  have c: "visitChildren (Suc 0) ex_env (ex_node ''d'' ''dependency'') (ex_builder []) \<noteq> None"
    by (simp add: ex_defs visitChildren_def)
  have bd: "build 5 (\<lambda>i. 0) ex_env (ex_builder []) \<noteq> None"
    by (simp add: ex_defs build_def numeral_eq_Suc settle_def resume_def remove_nth_def
        runPathRequest_resume_def runAssetRequest_resume_def visitChildren_def)
  from th a have 1: "node_type (ex_node ''d'' ''dependency'') \<in>
     {''entry_specifier'', ''entry_file'', ''dependency'', ''asset_group''} \<and>
   (\<exists>b'. queueCorrespondingRequest ex_env (ex_node ''d'' ''dependency'') (ex_builder []) = Inr b')"
    by blast
  from v obtain r where r: "visit (Suc 0) ex_env (ex_node ''d'' ''dependency'') (ex_builder []) = Some r"
    by blast
  with th have 2: "fst r = None" by blast
  from c obtain r' where r': "visitChildren (Suc 0) ex_env (ex_node ''d'' ''dependency'') (ex_builder []) = Some r'"
    by blast
  with th have 3: "fst r' = None" by blast
  from bd obtain out where out: "build 5 (\<lambda>i. 0) ex_env (ex_builder []) = Some out" by blast
  from dispatch_default_unreachable [of ex_env "ex_node ''d'' ''dependency''" "ex_builder []"
      5 "\<lambda>i. 0"] out
  have 4: "outcome out \<noteq>
     Inl (Error (''Can not queue corresponding request of node with type '' @ ''dependency''))"
    by blast
  from 1 v r 2 c r' 3 bd out 4 show ?thesis by simp
qed

section \<open>Visiting the children of a node\<close>

lemma visited_child_kept:
  assumes "visitChildren_loop k env node (child # rest) b = Some r"
    and "(node_id child \<notin> visited b \<or> hasDeferred child = Some True) \<and>
         shouldVisitChild env (assetGraph b) node child"
  shows "node_id child \<in> visited (snd r)"
proof -
  let ?b1 = "b\<lparr>visited := insert (node_id child) (visited b)\<rparr>"
  from assms obtain r1 where r1: "visit k env child ?b1 = Some r1"
    by (auto split: option.splits)
  with visit_no_throw(1) have "fst r1 = None" by blast
  then obtain b2 where b2: "r1 = (None, b2)" by (cases r1) auto
  from assms r1 b2 have rest: "visitChildren_loop k env node rest b2 = Some r" by simp
  from visit_extends(1) r1 b2 have "extends env ?b1 b2" by fastforce
  moreover from visit_extends(2) rest have "extends env b2 (snd r)" by blast
  ultimately show ?thesis by (auto simp: extends_def)
qed

text \<open>
  Claim C6. \<open>visitChildren\<close> walks the nodes connected from the node. A child that is in
  \<open>visited\<close> and whose \<open>hasDeferred\<close> flag is not set is passed over. Any other child is
  visited exactly when \<open>shouldVisitChild\<close> allows it: its id is put into \<open>visited\<close>, then
  the child is visited in that state, and the walk goes on with the state the visit
  returned; the id is still in \<open>visited\<close> at the end.
\<close>

theorem visitChildren_step:
  "visitChildren k env node b =
     visitChildren_loop k env node (getNodesConnectedFrom env (assetGraph b) node) b \<and>
   (node_id child \<in> visited b \<and> hasDeferred child \<noteq> Some True \<longrightarrow>
      visitChildren_loop k env node (child # rest) b = visitChildren_loop k env node rest b) \<and>
   (\<not> (node_id child \<in> visited b \<and> hasDeferred child \<noteq> Some True) \<longrightarrow>
      visitChildren_loop k env node (child # rest) b =
        (if shouldVisitChild env (assetGraph b) node child
         then Option.bind
                (visit k env child (b\<lparr>visited := insert (node_id child) (visited b)\<rparr>))
                (\<lambda>r. visitChildren_loop k env node rest (snd r))
         else visitChildren_loop k env node rest b) \<and>
      (shouldVisitChild env (assetGraph b) node child \<longrightarrow>
         (\<forall>r. visitChildren_loop k env node (child # rest) b = Some r \<longrightarrow>
            node_id child \<in> visited (snd r))))"
proof (intro conjI impI allI)
  show "visitChildren k env node b =
     visitChildren_loop k env node (getNodesConnectedFrom env (assetGraph b) node) b"
    by (simp add: visitChildren_def)
next
  assume "node_id child \<in> visited b \<and> hasDeferred child \<noteq> Some True"
  then show "visitChildren_loop k env node (child # rest) b = visitChildren_loop k env node rest b"
    by simp
next
  assume c: "\<not> (node_id child \<in> visited b \<and> hasDeferred child \<noteq> Some True)"
  let ?b1 = "b\<lparr>visited := insert (node_id child) (visited b)\<rparr>"
  show "visitChildren_loop k env node (child # rest) b =
        (if shouldVisitChild env (assetGraph b) node child
         then Option.bind (visit k env child ?b1) (\<lambda>r. visitChildren_loop k env node rest (snd r))
         else visitChildren_loop k env node rest b)"
  proof (cases "visit k env child ?b1")
    case None
    with c show ?thesis by auto
  next
    case (Some r1)
    with visit_no_throw(1) have "fst r1 = None" by blast
    then obtain b2 where "r1 = (None, b2)" by (cases r1) auto
    with Some c show ?thesis by auto
  qed
next
  fix r
  assume "\<not> (node_id child \<in> visited b \<and> hasDeferred child \<noteq> Some True)"
    "shouldVisitChild env (assetGraph b) node child"
    "visitChildren_loop k env node (child # rest) b = Some r"
  then show "node_id child \<in> visited (snd r)"
    using visited_child_kept [of k env node child rest b r] by blast
qed

theorem visitChildren_step_witness:
  "visitChildren_loop (Suc 0) ex_env (ex_node ''x'' ''asset'') [ex_node ''d'' ''dependency'']
     ((ex_builder [])\<lparr>visited := {''d''}\<rparr>) = Some (None, (ex_builder [])\<lparr>visited := {''d''}\<rparr>) \<and>
   visitChildren_loop (Suc 0) ex_env (ex_node ''x'' ''asset'') [ex_node ''d'' ''dependency'']
     (ex_builder []) \<noteq> None \<and>
   ''d'' \<in> visited (snd (the (visitChildren_loop (Suc 0) ex_env (ex_node ''x'' ''asset'')
     [ex_node ''d'' ''dependency''] (ex_builder []))))"
proof -
  let ?d = "ex_node ''d'' ''dependency''" and ?x = "ex_node ''x'' ''asset''"
  let ?b = "ex_builder [] :: (string list, string, unit, string) Builder"
  have a: "node_id ?d \<in> visited (?b\<lparr>visited := {''d''}\<rparr>) \<and> hasDeferred ?d \<noteq> Some True"
    by (simp add: ex_defs)
  have b: "\<not> (node_id ?d \<in> visited ?b \<and> hasDeferred ?d \<noteq> Some True)"
    by (simp add: ex_defs)
  have g: "shouldVisitChild ex_env (assetGraph ?b) ?x ?d"
    by (simp add: ex_defs)
  have n: "visitChildren_loop (Suc 0) ex_env ?x [?d] ?b \<noteq> None"
    by (simp add: ex_defs)
  then obtain r where r: "visitChildren_loop (Suc 0) ex_env ?x [?d] ?b = Some r" by blast
  from visitChildren_step [of "Suc 0" ex_env ?x "?b\<lparr>visited := {''d''}\<rparr>" ?d "[]"] a
  have 1: "visitChildren_loop (Suc 0) ex_env ?x [?d] (?b\<lparr>visited := {''d''}\<rparr>) =
      Some (None, ?b\<lparr>visited := {''d''}\<rparr>)"
    by simp
  from visitChildren_step [of "Suc 0" ex_env ?x ?b ?d "[]"] b g r
  have 2: "node_id ?d \<in> visited (snd r)" by blast
  then have "''d'' \<in> visited (snd r)" by (simp add: ex_node_def)
  with 1 n r show ?thesis by simp
qed

section \<open>Asset groups\<close>

lemma set_changedAssets_lookup:
  "set_changedAssets m assets i =
     (if i \<in> asset_id ` set assets
      then Some (last (filter (\<lambda>x. asset_id x = i) assets)) else m i)"
proof (induction assets arbitrary: m)
  case Nil
  show ?case by simp
next
  case (Cons y ys)
  show ?case
  proof (cases "i \<in> asset_id ` set ys")
    case True
    then have "filter (\<lambda>x. asset_id x = i) ys \<noteq> []"
      by (auto simp: filter_empty_conv)
    with True show ?thesis by (simp add: Cons.IH)
  next
    case False
    then have "filter (\<lambda>x. asset_id x = i) ys = []"
      by (auto simp: filter_empty_conv)
    with False show ?thesis by (cases "asset_id y = i") (simp_all add: Cons.IH)
  qed
qed

lemma set_changedAssets_other:
  "i \<notin> asset_id ` set assets \<Longrightarrow> set_changedAssets m assets i = m i"
  by (simp add: set_changedAssets_lookup)

lemma set_changedAssets_last:
  "a \<in> set assets \<Longrightarrow>
     set_changedAssets m assets (asset_id a) =
       Some (last (filter (\<lambda>x. asset_id x = asset_id a) assets))"
  by (simp add: set_changedAssets_lookup)

text \<open>
  Claim C7. A visit that dispatches an asset group node appends the node's asset group to
  \<open>assetRequests\<close> in the same step that queues the unit, whose request is still pending:
  the descriptor is recorded before the request settles, and a rejected request leaves the
  builder, hence the record, as it is. When the request yields assets, each of them is
  stored in \<open>changedAssets\<close> under its id (the last one of those that share an id), no
  other key changes, and \<open>resolveAssetGroup\<close> folds the assets into the graph.
\<close>

theorem asset_group_dispatch:
  fixes b :: "('g, 'v, 'a, 'e) Builder"
  assumes "errors b = []" "\<not> shouldSkipRequest env node" "node_type node = ''asset_group''"
  shows "\<exists>t. visit (Suc k) env node b =
             Some (None, b\<lparr>assetRequests := assetRequests b @ [node_value node],
                           queue := queue b @ [t]\<rparr>) \<and>
           task_node t = node \<and> task_kind t = AssetRequest \<and> task_state t = Pending \<and>
           task_input t = node_value node \<and>
           task_request t = createAssetRequest env (node_value node) (name b) (optionsRef b) \<and>
           (\<forall>b1 e. runRequest_asset env (task_request t) = Inl e \<longrightarrow>
              resume env t b1 = (Rejected e, b1)) \<and>
           (\<forall>b1 assets. runRequest_asset env (task_request t) = Inr (Some assets) \<longrightarrow>
              (\<exists>b2. resume env t b1 = (Fulfilled, b2) \<and>
                 (\<forall>a \<in> set assets.
                    changedAssets b2 (asset_id a) =
                      Some (last (filter (\<lambda>x. asset_id x = asset_id a) assets))) \<and>
                 (\<forall>i. i \<notin> asset_id ` set assets \<longrightarrow> changedAssets b2 i = changedAssets b1 i) \<and>
                 assetGraph b2 =
                   resolveAssetGroup env (assetGraph b1) (node_value node) assets
                     (request_id (task_request t)) \<and>
                 assetRequests b2 = assetRequests b1))"
proof -
  let ?q = "createAssetRequest env (node_value node) (name b) (optionsRef b)"
  let ?t = "new_task node AssetRequest (node_value node) ?q :: ('v, 'e) Task"
  from assms have v: "visit (Suc k) env node b =
      Some (None, b\<lparr>assetRequests := assetRequests b @ [node_value node],
                    queue := queue b @ [?t]\<rparr>)"
    by (simp add: queueCorrespondingRequest_def queue_add_def runAssetRequest_def)
  have f: "\<forall>b1 e. runRequest_asset env (task_request ?t) = Inl e \<longrightarrow>
              resume env ?t b1 = (Rejected e, b1)"
    by (simp add: resume_def new_task_def runAssetRequest_resume_def)
  have s: "\<forall>b1 assets. runRequest_asset env (task_request ?t) = Inr (Some assets) \<longrightarrow>
              (\<exists>b2. resume env ?t b1 = (Fulfilled, b2) \<and>
                 (\<forall>a \<in> set assets.
                    changedAssets b2 (asset_id a) =
                      Some (last (filter (\<lambda>x. asset_id x = asset_id a) assets))) \<and>
                 (\<forall>i. i \<notin> asset_id ` set assets \<longrightarrow> changedAssets b2 i = changedAssets b1 i) \<and>
                 assetGraph b2 =
                   resolveAssetGroup env (assetGraph b1) (node_value node) assets
                     (request_id (task_request ?t)) \<and>
                 assetRequests b2 = assetRequests b1)"
    by (simp add: resume_def new_task_def runAssetRequest_resume_def set_changedAssets_last
        set_changedAssets_other)
  have p: "task_node ?t = node \<and> task_kind ?t = AssetRequest \<and> task_state ?t = Pending \<and>
           task_input ?t = node_value node \<and> task_request ?t = ?q"
    by (simp add: new_task_def)
  from v p f s show ?thesis by blast
qed

theorem asset_group_dispatch_witness:
  "\<exists>t. visit (Suc 0) ex_env (ex_node ''g'' ''asset_group'') (ex_builder []) =
          Some (None, (ex_builder [])\<lparr>assetRequests := [''g''], queue := [t]\<rparr>) \<and>
        task_state t = Pending \<and>
        (\<exists>b2. resume ex_env t (ex_builder []) = (Fulfilled, b2) \<and>
           changedAssets b2 ''x'' = Some \<lparr>asset_id = ''x'', asset_rest = ()\<rparr> \<and>
           changedAssets b2 ''y'' = None \<and>
           assetGraph b2 = [''asset:g''])"
proof -
  let ?g = "ex_node ''g'' ''asset_group''"
  let ?b = "ex_builder [] :: (string list, string, unit, string) Builder"
  let ?x = "\<lparr>asset_id = ''x'', asset_rest = ()\<rparr>"
  have a: "errors ?b = []" "\<not> shouldSkipRequest ex_env ?g" "node_type ?g = ''asset_group''"
    by (simp_all add: ex_defs)
  from asset_group_dispatch [OF a, of 0] obtain t where
    v: "visit (Suc 0) ex_env ?g ?b =
          Some (None, ?b\<lparr>assetRequests := assetRequests ?b @ [node_value ?g], queue := queue ?b @ [t]\<rparr>)"
    and p: "task_state t = Pending"
    and q: "task_request t = createAssetRequest ex_env (node_value ?g) (name ?b) (optionsRef ?b)"
    and s: "\<forall>b1 assets. runRequest_asset ex_env (task_request t) = Inr (Some assets) \<longrightarrow>
              (\<exists>b2. resume ex_env t b1 = (Fulfilled, b2) \<and>
                 (\<forall>a \<in> set assets.
                    changedAssets b2 (asset_id a) =
                      Some (last (filter (\<lambda>x. asset_id x = asset_id a) assets))) \<and>
                 (\<forall>i. i \<notin> asset_id ` set assets \<longrightarrow> changedAssets b2 i = changedAssets b1 i) \<and>
                 assetGraph b2 =
                   resolveAssetGroup ex_env (assetGraph b1) (node_value ?g) assets
                     (request_id (task_request t)) \<and>
                 assetRequests b2 = assetRequests b1)"
    by blast
  from q have rr: "runRequest_asset ex_env (task_request t) = Inr (Some [?x])"
    by (simp add: ex_defs)
  from s rr obtain b2 where b2: "resume ex_env t ?b = (Fulfilled, b2)"
    "\<forall>a \<in> set [?x]. changedAssets b2 (asset_id a) =
        Some (last (filter (\<lambda>x. asset_id x = asset_id a) [?x]))"
    "\<forall>i. i \<notin> asset_id ` set [?x] \<longrightarrow> changedAssets b2 i = changedAssets ?b i"
    "assetGraph b2 = resolveAssetGroup ex_env (assetGraph ?b) (node_value ?g) [?x]
                     (request_id (task_request t))"
    by blast
  from b2(2) have c1: "changedAssets b2 ''x'' = Some ?x" by simp
  from b2(3) have c2: "changedAssets b2 ''y'' = None" by (simp add: ex_builder_def)
  from b2(4) q have c3: "assetGraph b2 = [''asset:g'']" by (simp add: ex_defs)
  from v have v': "visit (Suc 0) ex_env ?g ?b = Some (None, ?b\<lparr>assetRequests := [''g''], queue := [t]\<rparr>)"
    by (simp add: ex_builder_def ex_node_def)
  from v' p b2(1) c1 c2 c3 show ?thesis by blast
qed

section \<open>Rejected requests and recorded errors\<close>

lemma loop_after_error:
  "errors b \<noteq> [] \<Longrightarrow>
     \<exists>V. visitChildren_loop (Suc k) env node cs b = Some (None, b\<lparr>visited := V\<rparr>)"
proof (induction cs arbitrary: b)
  case Nil
  have "b = b\<lparr>visited := visited b\<rparr>" by simp
  then show ?case by (metis visitChildren_loop.simps(1))
next
  case (Cons c cs)
  let ?b1 = "b\<lparr>visited := insert (node_id c) (visited b)\<rparr>"
  from Cons.prems have e1: "errors ?b1 \<noteq> []" by simp
  from Cons.IH [OF e1] obtain V1 where
    V1: "visitChildren_loop (Suc k) env node cs ?b1 = Some (None, ?b1\<lparr>visited := V1\<rparr>)"
    by blast
  from Cons.IH [OF Cons.prems] obtain V2 where
    V2: "visitChildren_loop (Suc k) env node cs b = Some (None, b\<lparr>visited := V2\<rparr>)"
    by blast
  have "?b1\<lparr>visited := V1\<rparr> = b\<lparr>visited := V1\<rparr>" by simp
  with V1 V2 Cons.prems show ?case by auto
qed

lemma resume_rejected:
  "rejects env t e \<Longrightarrow> resume env t b = (Rejected e, b)"
  by (cases "task_kind t")
     (simp_all add: rejects_def resume_def runEntryRequest_resume_def runTargetRequest_resume_def
        runPathRequest_resume_def runAssetRequest_resume_def)

lemma settle_rejected_unit:
  assumes "task_state (queue b ! j) = Rejected e"
  shows "\<exists>V. settle (Suc k) env j b =
           Some (b\<lparr>queue := remove_nth j (queue b), errors := errors b @ [e], visited := V\<rparr>)"
proof -
  let ?b1 = "b\<lparr>queue := remove_nth j (queue b), errors := errors b @ [e]\<rparr>"
  have "errors ?b1 \<noteq> []" by simp
  from loop_after_error [OF this, of k env "task_node (queue b ! j)"
      "getNodesConnectedFrom env (assetGraph ?b1) (task_node (queue b ! j))"]
  obtain V where "visitChildren (Suc k) env (task_node (queue b ! j)) ?b1 =
      Some (None, ?b1\<lparr>visited := V\<rparr>)"
    unfolding visitChildren_def by blast
  with assms have "settle (Suc k) env j b = Some (?b1\<lparr>visited := V\<rparr>)"
    by (simp add: settle_def)
  then show ?thesis by blast
qed

text \<open>
  Claim C8. When the request of a dispatched node is rejected, the \<open>run...Request\<close>
  method ends there: only the state of the unit's promise changes, so no resolution
  operation is applied to the graph and \<open>changedAssets\<close> gains nothing. When the unit
  then settles, the error is appended to \<open>errors\<close> and the step returns a state: the
  error does not leave the unit, and the graph and \<open>changedAssets\<close> are still as they
  were.
\<close>

theorem rejected_request_recorded:
  "(j < length (queue b) \<and> task_state (queue b ! j) = Pending \<and> rejects env (queue b ! j) e \<longrightarrow>
      settle k env j b =
        Some (b\<lparr>queue := (queue b)[j := (queue b ! j)\<lparr>task_state := Rejected e\<rparr>]\<rparr>)) \<and>
   (task_state (queue b ! j) = Rejected e \<longrightarrow>
      (\<exists>b'. settle (Suc k) env j b = Some b' \<and>
         errors b' = errors b @ [e] \<and> assetGraph b' = assetGraph b \<and>
         changedAssets b' = changedAssets b \<and> assetRequests b' = assetRequests b \<and>
         queue b' = remove_nth j (queue b)))"
proof (intro conjI impI)
  assume "j < length (queue b) \<and> task_state (queue b ! j) = Pending \<and> rejects env (queue b ! j) e"
  then show "settle k env j b =
        Some (b\<lparr>queue := (queue b)[j := (queue b ! j)\<lparr>task_state := Rejected e\<rparr>]\<rparr>)"
    by (auto simp: settle_def Let_def resume_rejected)
next
  assume "task_state (queue b ! j) = Rejected e"
  from settle_rejected_unit [OF this, of k env] obtain V where
    "settle (Suc k) env j b =
       Some (b\<lparr>queue := remove_nth j (queue b), errors := errors b @ [e], visited := V\<rparr>)"
    by blast
  then show "\<exists>b'. settle (Suc k) env j b = Some b' \<and>
         errors b' = errors b @ [e] \<and> assetGraph b' = assetGraph b \<and>
         changedAssets b' = changedAssets b \<and> assetRequests b' = assetRequests b \<and>
         queue b' = remove_nth j (queue b)"
    by simp
qed

theorem rejected_request_recorded_witness:
  "settle 0 ex_env 0 ((ex_builder [])\<lparr>queue := [ex_bad_task]\<rparr>) =
     Some ((ex_builder [])\<lparr>queue := [ex_bad_task\<lparr>task_state := Rejected ''transform failed''\<rparr>]\<rparr>) \<and>
   (\<exists>b'. settle (Suc 0) ex_env 0
           ((ex_builder [])\<lparr>queue := [ex_bad_task\<lparr>task_state := Rejected ''transform failed''\<rparr>]\<rparr>)
         = Some b' \<and>
      errors b' = [''transform failed''] \<and> assetGraph b' = [] \<and>
      changedAssets b' = Map.empty \<and> assetRequests b' = [] \<and> queue b' = [])"
proof -
  let ?b = "(ex_builder [])\<lparr>queue := [ex_bad_task]\<rparr>"
  let ?b1 = "(ex_builder [])\<lparr>queue := [ex_bad_task\<lparr>task_state := Rejected ''transform failed''\<rparr>]\<rparr>"
  have a: "0 < length (queue ?b) \<and> task_state (queue ?b ! 0) = Pending \<and>
      rejects ex_env (queue ?b ! 0) ''transform failed''"
    by (simp add: ex_bad_task_def new_task_def rejects_def ex_env_def)
  have c: "task_state (queue ?b1 ! 0) = Rejected ''transform failed''"
    by simp
  from rejected_request_recorded [where j = 0 and b = ?b and env = ex_env and e = "''transform failed''" and k = 0] a
  have 1: "settle 0 ex_env 0 ?b = Some ?b1" by simp
  from rejected_request_recorded [where j = 0 and b = ?b1 and env = ex_env and e = "''transform failed''" and k = 0] c
  have 2: "\<exists>b'. settle (Suc 0) ex_env 0 ?b1 = Some b' \<and>
         errors b' = errors ?b1 @ [''transform failed''] \<and> assetGraph b' = assetGraph ?b1 \<and>
         changedAssets b' = changedAssets ?b1 \<and> assetRequests b' = assetRequests ?b1 \<and>
         queue b' = remove_nth 0 (queue ?b1)"
    by blast
  from 1 2 show ?thesis by (simp add: ex_builder_def remove_nth_def)
qed

section \<open>The queue after an error\<close>


lemma units_left_append: "units_left (xs @ ys) = units_left xs + units_left ys"
  by (induction xs) auto











section \<open>The outcome of a pass\<close>








section \<open>What is stored and what is returned\<close>



section \<open>Termination of the walk\<close>
























section \<open>Termination of the queue and of the pass\<close>









section \<open>What the walk explores\<close>



section \<open>What a pass explores\<close>


























section \<open>Termination and exploration on graphs with cycles\<close>





end
